theory Spec2Isabelle
  imports Complex_Main "HOL-Library.Word" "HOL-Library.Multiset"
begin

section \<open>Machine numbers\<close>

text \<open>
  \<open>int\<close> of the source is a 32-bit two's complement word, \<open>std::int16_t\<close> a 16-bit one
  and \<open>uint64_t\<close> a 64-bit one. Signed comparison is \<open><s\<close>, conversion from the narrow
  to the wide signed type is \<open>scast\<close>.
\<close>

type_synonym i16 = "16 word"
type_synonym i32 = "32 word"
type_synonym u64 = "64 word"

text \<open>
  A \<open>float\<close> is modelled by the value it denotes: a real number, one of the two
  infinities, or NaN. Comparison of two floats is exact, so \<open>f32_less\<close> and \<open>f32_le\<close>
  are the operators \<open><\<close> and \<open><=\<close> of the source on these values (every comparison with
  NaN is false). The rounding arithmetic of the target is not fixed by the source; it is the
  parameter \<open>f32_arith\<close> of \<open>nudge\<close>.
\<close>

datatype f32 = Finite real | PInf | NInf | NaN

fun f32_less :: "f32 \<Rightarrow> f32 \<Rightarrow> bool" where
  "f32_less NaN b = False"
| "f32_less a NaN = False"
| "f32_less (Finite a) (Finite b) = (a < b)"
| "f32_less (Finite a) PInf = True"
| "f32_less (Finite a) NInf = False"
| "f32_less PInf b = False"
| "f32_less NInf (Finite b) = True"
| "f32_less NInf PInf = True"
| "f32_less NInf NInf = False"


record f32_arith =
  f32_of_i32 :: "i32 \<Rightarrow> f32"
  f32_add :: "f32 \<Rightarrow> f32 \<Rightarrow> f32"
  f32_sub :: "f32 \<Rightarrow> f32 \<Rightarrow> f32"
  f32_mul :: "f32 \<Rightarrow> f32 \<Rightarrow> f32"
  f32_div :: "f32 \<Rightarrow> f32 \<Rightarrow> f32"
  i32_of_f32 :: "f32 \<Rightarrow> i32"

text \<open>\<open>std::max(a, b)\<close> is \<open>(a < b) ? b : a\<close>.\<close>

definition std_max_i32 :: "i32 \<Rightarrow> i32 \<Rightarrow> i32" where
  "std_max_i32 a b = (if a <s b then b else a)"

definition std_max_f32 :: "f32 \<Rightarrow> f32 \<Rightarrow> f32" where
  "std_max_f32 a b = (if f32_less a b then b else a)"

text \<open>\<open>std::clamp(v, lo, hi)\<close> is \<open>(v < lo) ? lo : (hi < v) ? hi : v\<close>.\<close>

definition std_clamp_i32 :: "i32 \<Rightarrow> i32 \<Rightarrow> i32 \<Rightarrow> i32" where
  "std_clamp_i32 v lo hi = (if v <s lo then lo else if hi <s v then hi else v)"

definition std_clamp_f32 :: "f32 \<Rightarrow> f32 \<Rightarrow> f32 \<Rightarrow> f32" where
  "std_clamp_f32 v lo hi = (if f32_less v lo then lo else if f32_less hi v then hi else v)"

section \<open>Parameters\<close>

datatype NudgedStaticMode = Absolute | Relative | Interpolate

text \<open>The literal \<open>0.1\<close> stored in a \<open>float\<close> is the binary32 number nearest to one tenth.\<close>

definition float_0_1 :: f32 where
  "float_0_1 = Finite (13421773 / 134217728)"

record NudgedStaticParams =
  input_filename :: string
  output_filename :: string
  mode :: NudgedStaticMode
  absolute_nudge :: i32
  relative_nudge :: f32
  interpolate_nudge :: f32

definition NudgedStaticParams_default :: NudgedStaticParams where
  "NudgedStaticParams_default =
     \<lparr> input_filename = ''in.binpack'', output_filename = ''out.binpack'',
       mode = Absolute, absolute_nudge = 5,
       relative_nudge = float_0_1, interpolate_nudge = float_0_1 \<rparr>"

definition nudged_enforce_constraints :: "NudgedStaticParams \<Rightarrow> NudgedStaticParams" where
  "nudged_enforce_constraints params =
     (let params = params\<lparr> relative_nudge := std_max_f32 (relative_nudge params) (Finite 0) \<rparr>
      in params\<lparr> absolute_nudge := std_max_i32 (absolute_nudge params) 0 \<rparr>)"

record RescoreFenParams =
  rescore_input_filename :: string
  rescore_output_filename :: string
  depth :: i32

definition RescoreFenParams_default :: RescoreFenParams where
  "RescoreFenParams_default =
     \<lparr> rescore_input_filename = ''in.epd'', rescore_output_filename = ''out.binpack'',
       depth = 3 \<rparr>"

definition rescore_enforce_constraints :: "RescoreFenParams \<Rightarrow> RescoreFenParams" where
  "rescore_enforce_constraints params = params\<lparr> depth := std_max_i32 1 (depth params) \<rparr>"

section \<open>The score adjuster\<close>

definition saturate_i32_to_i16 :: "i32 \<Rightarrow> i16" where
  "saturate_i32_to_i16 v = scast (std_clamp_i32 v (- 32768) 32767)"

definition saturate_f32_to_i16 :: "f32_arith \<Rightarrow> f32 \<Rightarrow> i16" where
  "saturate_f32_to_i16 fl v = saturate_i32_to_i16 (i32_of_f32 fl v)"

definition nudge :: "f32_arith \<Rightarrow> NudgedStaticParams \<Rightarrow> i16 \<Rightarrow> i16 \<Rightarrow> i16" where
  "nudge fl params static_eval_i16 deep_eval_i16 =
     (let static_eval = (scast static_eval_i16 :: i32);
          deep_eval = (scast deep_eval_i16 :: i32)
      in case mode params of
           Absolute \<Rightarrow>
             saturate_i32_to_i16
               (static_eval + std_clamp_i32 (deep_eval - static_eval)
                                (- absolute_nudge params) (absolute_nudge params))
         | Relative \<Rightarrow>
             saturate_f32_to_i16 fl
               (f32_mul fl (f32_of_i32 fl static_eval)
                  (std_clamp_f32
                     (f32_div fl (f32_of_i32 fl deep_eval) (f32_of_i32 fl static_eval))
                     (f32_sub fl (Finite 1) (relative_nudge params))
                     (f32_add fl (Finite 1) (relative_nudge params))))
         | Interpolate \<Rightarrow>
             saturate_f32_to_i16 fl
               (f32_add fl
                  (f32_mul fl (f32_of_i32 fl static_eval)
                     (f32_sub fl (Finite 1) (interpolate_nudge params)))
                  (f32_mul fl (f32_of_i32 fl deep_eval) (interpolate_nudge params))))"

section \<open>Records, collaborators and the trace of a run\<close>

text \<open>
  Modelled from the spec: the record type \<open>PackedSfenValue\<close> is declared in
  \<open>packed_sfen.h\<close>, which is not part of the sources at hand. Its fields are those of the
  Position Record of the data model: an opaque packed board encoding, an integer score, a
  best-move encoding, ply count, game-result code and padding. The integer fields are
  unbounded here; the conversions at the call of \<open>nudge\<close> are written out.
\<close>

record ('sfen, 'move) PackedSfenValue =
  sfen :: 'sfen
  score :: int
  move :: 'move
  gamePly :: int
  game_result :: int
  padding :: int

text \<open>
  What a run does to the outside world is a list of events in the order in which they
  happen: the lines printed on the two channels, the files opened, the batches handed to
  the sink, the calls of the search (each recorded where its line is read, so in the order
  of the reads). \<open>Null_sink_write\<close> is a call of \<open>write\<close> through a null sink
  pointer: undefined behaviour, after which the model lets nothing more happen.
\<close>

datatype message =
    Processed u64
  | Finished
  | Invalid_input_file_type
  | Invalid_output_file_type
  | Invalid_subcommand string
  | Nudged_static_params NudgedStaticParams
  | Rescore_fen_params RescoreFenParams

datatype ('sfen, 'move) event =
    NNUE_init
  | Open_sfen_input string
  | Create_sfen_output string
  | Open_ifstream string
  | Search_call string
  | Write "('sfen, 'move) PackedSfenValue list"
  | Cout message
  | Cerr message
  | Null_sink_write

text \<open>
  The collaborators, as functions. \<open>open_sfen_input_file\<close> answers \<open>None\<close> for the null
  pointer and otherwise the records that \<open>next()\<close> will yield; \<open>create_new_sfen_output\<close>
  says whether a sink was constructed; \<open>ifstream_lines\<close> answers \<open>None\<close> when the file
  cannot be opened and otherwise the lines \<open>std::getline\<close> will read. \<open>stream_int\<close> and
  \<open>stream_float\<close> are the numeric extraction of \<open>operator>>\<close> on one token: the value it
  stores and whether the stream is still good. \<open>search\<close> is \<open>Search::search\<close> under the
  limits that the driver sets before it starts the pool; it is assumed to leave the
  position as it found it. \<open>num_workers\<close> is the size of the thread pool and \<open>schedule\<close>
  the order in which the pool lets its workers take their next step.
\<close>

record ('sfen, 'move, 'pos) services =
  open_sfen_input_file :: "string \<Rightarrow> ('sfen, 'move) PackedSfenValue list option"
  create_new_sfen_output :: "string \<Rightarrow> bool"
  ifstream_lines :: "string \<Rightarrow> string list option"
  set_from_packed_sfen :: "'sfen \<Rightarrow> 'pos"
  set_fen :: "string \<Rightarrow> 'pos"
  reset_rule50 :: "'pos \<Rightarrow> 'pos"
  sfen_pack :: "'pos \<Rightarrow> 'sfen"
  evaluate :: "'pos \<Rightarrow> int"
  search :: "'pos \<Rightarrow> i32 \<Rightarrow> nat \<Rightarrow> int \<times> 'move list"
  arith :: f32_arith
  stream_int :: "string \<Rightarrow> i32 \<times> bool"
  stream_float :: "string \<Rightarrow> f32 \<times> bool"
  num_workers :: nat
  schedule :: "nat list"

fun writes :: "('sfen, 'move) event list \<Rightarrow> ('sfen, 'move) PackedSfenValue list list" where
  "writes [] = []"
| "writes (Write b # tr) = b # writes tr"
| "writes (e # tr) = writes tr"

fun reported :: "('sfen, 'move) event list \<Rightarrow> u64 list" where
  "reported [] = []"
| "reported (Cout (Processed n) # tr) = n # reported tr"
| "reported (e # tr) = reported tr"

definition last_reported :: "('sfen, 'move) event list \<Rightarrow> u64" where
  "last_reported tr = (if reported tr = [] then 0 else last (reported tr))"

fun search_calls :: "('sfen, 'move) event list \<Rightarrow> string list" where
  "search_calls [] = []"
| "search_calls (Search_call fen # tr) = fen # search_calls tr"
| "search_calls (e # tr) = search_calls tr"

fun cerr_lines :: "('sfen, 'move) event list \<Rightarrow> message list" where
  "cerr_lines [] = []"
| "cerr_lines (Cerr m # tr) = m # cerr_lines tr"
| "cerr_lines (e # tr) = cerr_lines tr"

section \<open>The batch and its flush\<close>

record ('sfen, 'move) writer =
  buffer :: "('sfen, 'move) PackedSfenValue list"
  num_processed :: u64
  trace :: "('sfen, 'move) event list"

text \<open>
  \<open>num_processed += buffer.size(); out->write(buffer); buffer.clear();\<close> followed by the
  progress line, with a sink that exists.
\<close>

definition flush :: "('sfen, 'move, 'z) writer_scheme \<Rightarrow> ('sfen, 'move, 'z) writer_scheme" where
  "flush w =
     (let n = num_processed w + of_nat (length (buffer w))
      in w\<lparr> num_processed := n, buffer := [],
            trace := trace w @ [Write (buffer w), Cout (Processed n)] \<rparr>)"

section \<open>The static-rescoring driver\<close>

definition nudge_record ::
  "('sfen, 'move, 'pos) services \<Rightarrow> NudgedStaticParams \<Rightarrow>
   ('sfen, 'move) PackedSfenValue \<Rightarrow> ('sfen, 'move) PackedSfenValue" where
  "nudge_record env params ps =
     (let pos = set_from_packed_sfen env (sfen ps);
          static_eval = evaluate env pos;
          deep_eval = score ps
      in ps\<lparr> score := sint (nudge (arith env) params (word_of_int static_eval)
                                  (word_of_int deep_eval)) \<rparr>)"

fun streaming ::
  "('sfen, 'move, 'pos) services \<Rightarrow> NudgedStaticParams \<Rightarrow> nat \<Rightarrow>
   ('sfen, 'move) PackedSfenValue list \<Rightarrow> ('sfen, 'move) writer \<Rightarrow> ('sfen, 'move) writer" where
  "streaming env params batch_size [] w = w"
| "streaming env params batch_size (v # rest) w =
     (let w = w\<lparr> buffer := buffer w @ [nudge_record env params v] \<rparr>;
          w = (if batch_size \<le> length (buffer w) then flush w else w)
      in streaming env params batch_size rest w)"

definition do_nudged_static ::
  "('sfen, 'move, 'pos) services \<Rightarrow> NudgedStaticParams \<Rightarrow> ('sfen, 'move) event list" where
  "do_nudged_static env params =
     (let opened = [Open_sfen_input (input_filename params),
                    Create_sfen_output (output_filename params)]
      in case open_sfen_input_file env (input_filename params) of
           None \<Rightarrow> opened @ [Cerr Invalid_input_file_type]
         | Some records \<Rightarrow>
             if \<not> create_new_sfen_output env (output_filename params)
             then opened @ [Cerr Invalid_output_file_type]
             else
               (let w = streaming env params 1000000 records
                          \<lparr> buffer = [], num_processed = 0, trace = opened \<rparr>;
                    w = (if buffer w \<noteq> [] then flush w else w)
                in trace w @ [Cout Finished]))"

section \<open>Reading the parameters\<close>

text \<open>
  The argument stream is the list of its whitespace-separated tokens that are still unread,
  and every extraction takes one whole token. A stream on which an extraction has failed
  yields nothing any more, as an exhausted one does, so both are the empty list. An
  extraction from an exhausted stream leaves the variable as it was; a numeric extraction
  that fails on a token stores what \<open>stream_int\<close> or \<open>stream_float\<close> says and fails the
  stream.
\<close>

definition extract_string :: "string \<Rightarrow> string list \<Rightarrow> string \<times> string list" where
  "extract_string old is = (case is of [] \<Rightarrow> (old, []) | t # rest \<Rightarrow> (t, rest))"

definition extract_value ::
  "(string \<Rightarrow> 'a \<times> bool) \<Rightarrow> 'a \<Rightarrow> string list \<Rightarrow> 'a \<times> string list" where
  "extract_value rd old is =
     (case is of
        [] \<Rightarrow> (old, [])
      | t # rest \<Rightarrow> (let (v, ok) = rd t in (v, if ok then rest else [])))"

lemma length_extract_string [termination_simp]:
  "length (snd (extract_string old is)) \<le> length is"
  by (simp add: extract_string_def split: list.split)

lemma length_extract_value [termination_simp]:
  "length (snd (extract_value rd old is)) \<le> length is"
  by (simp add: extract_value_def split: list.split prod.split)

function parse_nudged_static ::
  "('sfen, 'move, 'pos) services \<Rightarrow> string list \<Rightarrow> NudgedStaticParams \<Rightarrow> NudgedStaticParams" where
  "parse_nudged_static env [] params = params"
| "parse_nudged_static env (token # is) params =
     (if token = [] then params
      else if token = ''absolute'' then
        (let params = params\<lparr> mode := Absolute \<rparr>;
             r = extract_value (stream_int env) (absolute_nudge params) is
         in parse_nudged_static env (snd r) (params\<lparr> absolute_nudge := fst r \<rparr>))
      else if token = ''relative'' then
        (let params = params\<lparr> mode := Relative \<rparr>;
             r = extract_value (stream_float env) (relative_nudge params) is
         in parse_nudged_static env (snd r) (params\<lparr> relative_nudge := fst r \<rparr>))
      else if token = ''interpolate'' then
        (let params = params\<lparr> mode := Interpolate \<rparr>;
             r = extract_value (stream_float env) (interpolate_nudge params) is
         in parse_nudged_static env (snd r) (params\<lparr> interpolate_nudge := fst r \<rparr>))
      else if token = ''input_file'' then
        (let r = extract_string (input_filename params) is
         in parse_nudged_static env (snd r) (params\<lparr> input_filename := fst r \<rparr>))
      else if token = ''output_file'' then
        (let r = extract_string (output_filename params) is
         in parse_nudged_static env (snd r) (params\<lparr> output_filename := fst r \<rparr>))
      else parse_nudged_static env is params)"
  by pat_completeness auto
termination
  by (relation "measure (\<lambda>(env, is, params). length is)")
     (auto simp: le_imp_less_Suc length_extract_string length_extract_value)

function parse_rescore_fen ::
  "('sfen, 'move, 'pos) services \<Rightarrow> string list \<Rightarrow> RescoreFenParams \<Rightarrow> RescoreFenParams" where
  "parse_rescore_fen env [] params = params"
| "parse_rescore_fen env (token # is) params =
     (if token = [] then params
      else if token = ''depth'' then
        (let r = extract_value (stream_int env) (depth params) is
         in parse_rescore_fen env (snd r) (params\<lparr> depth := fst r \<rparr>))
      else if token = ''input_file'' then
        (let r = extract_string (rescore_input_filename params) is
         in parse_rescore_fen env (snd r) (params\<lparr> rescore_input_filename := fst r \<rparr>))
      else if token = ''output_file'' then
        (let r = extract_string (rescore_output_filename params) is
         in parse_rescore_fen env (snd r) (params\<lparr> rescore_output_filename := fst r \<rparr>))
      else parse_rescore_fen env is params)"
  by pat_completeness auto
termination
  by (relation "measure (\<lambda>(env, is, params). length is)")
     (auto simp: le_imp_less_Suc length_extract_string length_extract_value)

definition nudged_static ::
  "('sfen, 'move, 'pos) services \<Rightarrow> string list \<Rightarrow> ('sfen, 'move) event list" where
  "nudged_static env is =
     (let params = parse_nudged_static env is NudgedStaticParams_default
      in Cout (Nudged_static_params params)
           # do_nudged_static env (nudged_enforce_constraints params))"

section \<open>The search-rescoring driver\<close>

text \<open>
  \<open>next_fen\<close> on the unread lines of the file: the line read, or nothing at the end of
  the file and for a line shorter than 10 characters, and the lines left. A file that could
  not be opened is a stream on which every \<open>std::getline\<close> fails, like an empty one.
\<close>

definition next_fen :: "string list \<Rightarrow> string option \<times> string list" where
  "next_fen fens_file =
     (case fens_file of
        [] \<Rightarrow> (None, [])
      | fen # rest \<Rightarrow> (if 10 \<le> length fen then Some fen else None, rest))"

text \<open>
  Each worker runs the loop of the closure. Between two critical sections it is at one of
  two places: about to call \<open>next_fen\<close>, or holding a record and about to take the lock of
  the batch. The two critical sections are atomic, and the search between them touches
  nothing shared, so a run of the pool is an interleaving of worker steps:
  a step from \<open>At_next_fen\<close> reads a line, sets the position and searches it; a step from
  \<open>At_emplace\<close> appends the record and flushes a full batch.
\<close>

datatype ('sfen, 'move) worker =
    At_next_fen
  | At_emplace "('sfen, 'move) PackedSfenValue"
  | Returned

record ('sfen, 'move) pool = "('sfen, 'move) writer" +
  fens_file :: "string list"
  workers :: "('sfen, 'move) worker list"
  crashed :: bool

definition worker_step ::
  "('sfen, 'move, 'pos) services \<Rightarrow> RescoreFenParams \<Rightarrow> nat \<Rightarrow> bool \<Rightarrow> nat \<Rightarrow>
   ('sfen, 'move) pool \<Rightarrow> ('sfen, 'move) pool" where
  "worker_step env params batch_size out i st =
     (if crashed st \<or> length (workers st) \<le> i then st
      else case workers st ! i of
        Returned \<Rightarrow> st
      | At_next_fen \<Rightarrow>
          (case next_fen (fens_file st) of
             (None, rest) \<Rightarrow>
               st\<lparr> fens_file := rest, workers := (workers st)[i := Returned] \<rparr>
           | (Some fen, rest) \<Rightarrow>
               (let pos = reset_rule50 env (set_fen env fen);
                    (search_value, search_pv) = search env pos (depth params) 1;
                    st = st\<lparr> fens_file := rest, trace := trace st @ [Search_call fen] \<rparr>
                in if search_pv = [] then st
                   else st\<lparr> workers := (workers st)
                          [i := At_emplace \<lparr> sfen = sfen_pack env pos, score = search_value,
                                             move = search_pv ! 0, gamePly = 1,
                                             game_result = 0, padding = 0 \<rparr>] \<rparr>))
      | At_emplace ps \<Rightarrow>
          (let st = st\<lparr> buffer := buffer st @ [ps] \<rparr>
           in if batch_size \<le> length (buffer st)
              then (if out then (flush st)\<lparr> workers := (workers st)[i := At_next_fen] \<rparr>
                    else st\<lparr> trace := trace st @ [Null_sink_write], crashed := True \<rparr>)
              else st\<lparr> workers := (workers st)[i := At_next_fen] \<rparr>))"

text \<open>
  The pool takes the steps of its schedule; \<open>wait_for_workers_finished\<close> then lets every
  worker that has not returned run on, one after the other. From a state with \<open>n\<close> unread
  lines a worker returns within \<open>2 * n + 2\<close> of its own steps
  (\<open>run_to_return_Returned\<close>), so every schedule is completed to a whole run, and every
  interleaving of a whole run is the run of some schedule.
\<close>

definition run_to_return ::
  "('sfen, 'move, 'pos) services \<Rightarrow> RescoreFenParams \<Rightarrow> nat \<Rightarrow> bool \<Rightarrow> nat \<Rightarrow>
   ('sfen, 'move) pool \<Rightarrow> ('sfen, 'move) pool" where
  "run_to_return env params batch_size out i st =
     ((worker_step env params batch_size out i) ^^ (2 * length (fens_file st) + 2)) st"

definition execute_with_workers ::
  "('sfen, 'move, 'pos) services \<Rightarrow> RescoreFenParams \<Rightarrow> nat \<Rightarrow> bool \<Rightarrow>
   ('sfen, 'move) pool \<Rightarrow> ('sfen, 'move) pool" where
  "execute_with_workers env params batch_size out st =
     fold (worker_step env params batch_size out) (schedule env) st"

definition wait_for_workers_finished ::
  "('sfen, 'move, 'pos) services \<Rightarrow> RescoreFenParams \<Rightarrow> nat \<Rightarrow> bool \<Rightarrow>
   ('sfen, 'move) pool \<Rightarrow> ('sfen, 'move) pool" where
  "wait_for_workers_finished env params batch_size out st =
     fold (run_to_return env params batch_size out) [0..<length (workers st)] st"

definition rescore_pool ::
  "('sfen, 'move, 'pos) services \<Rightarrow> RescoreFenParams \<Rightarrow> ('sfen, 'move) pool" where
  "rescore_pool env params =
     (let fens = (case ifstream_lines env (rescore_input_filename params) of
                    None \<Rightarrow> [] | Some lines \<Rightarrow> lines);
          out = create_new_sfen_output env (rescore_output_filename params);
          st = \<lparr> buffer = [], num_processed = 0,
                 trace = [Open_ifstream (rescore_input_filename params),
                          Create_sfen_output (rescore_output_filename params)],
                 fens_file = fens, workers = replicate (num_workers env) At_next_fen,
                 crashed = False \<rparr>
      in wait_for_workers_finished env params 10000 out
           (execute_with_workers env params 10000 out st))"

definition do_rescore_fen ::
  "('sfen, 'move, 'pos) services \<Rightarrow> RescoreFenParams \<Rightarrow> ('sfen, 'move) event list" where
  "do_rescore_fen env params =
     (let out = create_new_sfen_output env (rescore_output_filename params);
          st = rescore_pool env params
      in if crashed st then trace st
         else if buffer st \<noteq> []
         then (if out then trace (flush st) @ [Cout Finished]
               else trace st @ [Null_sink_write])
         else trace st @ [Cout Finished])"

definition rescore_fen ::
  "('sfen, 'move, 'pos) services \<Rightarrow> string list \<Rightarrow> ('sfen, 'move) event list" where
  "rescore_fen env is =
     (let params = parse_rescore_fen env is RescoreFenParams_default
      in Cout (Rescore_fen_params params)
           # do_rescore_fen env (rescore_enforce_constraints params))"

section \<open>The command dispatcher\<close>

definition subcommands ::
  "(string \<times> (('sfen, 'move, 'pos) services \<Rightarrow> string list \<Rightarrow> ('sfen, 'move) event list)) list" where
  "subcommands = [(''nudged_static'', nudged_static), (''rescore_fen'', rescore_fen)]"

definition transform ::
  "('sfen, 'move, 'pos) services \<Rightarrow> string list \<Rightarrow> ('sfen, 'move) event list" where
  "transform env is =
     NNUE_init #
       (let r = extract_string [] is; subcommand = fst r
        in case map_of subcommands subcommand of
             None \<Rightarrow> [Cout (Invalid_subcommand subcommand)]
           | Some func \<Rightarrow> func env (snd r))"

text \<open>
  The number of lines that get searched when \<open>k\<close> workers share the cursor: the lines of
  at least 10 characters that come before the \<open>k\<close>-th line that is shorter, or all of them
  when fewer than \<open>k\<close> lines are shorter.
\<close>

fun searched :: "nat \<Rightarrow> string list \<Rightarrow> string list" where
  "searched 0 fens = []"
| "searched (Suc k) [] = []"
| "searched (Suc k) (fen # fens) =
     (if 10 \<le> length fen then fen # searched (Suc k) fens else searched k fens)"

section \<open>Quantities used in the proofs\<close>

text \<open>
  The workers that have not returned, and the view of the cursor that no step changes: the
  lines searched so far followed by the lines that the remaining workers will still search.
\<close>

definition alive :: "('sfen, 'move) worker list \<Rightarrow> nat" where
  "alive ws = length (filter (\<lambda>w. w \<noteq> Returned) ws)"

definition cursor_view :: "('sfen, 'move) pool \<Rightarrow> string list" where
  "cursor_view st = search_calls (trace st) @ searched (alive (workers st)) (fens_file st)"

text \<open>How many of its own steps a worker is away from returning, at most.\<close>

definition steps_left :: "('sfen, 'move) pool \<Rightarrow> nat \<Rightarrow> nat" where
  "steps_left st i =
     (case workers st ! i of
        Returned \<Rightarrow> 0
      | At_next_fen \<Rightarrow> 2 * length (fens_file st) + 1
      | At_emplace ps \<Rightarrow> 2 * length (fens_file st) + 2)"

text \<open>
  Whether the search of a line finds a move, and the record that the loop builds from the
  line when it does.
\<close>

definition found ::
  "('sfen, 'move, 'pos) services \<Rightarrow> RescoreFenParams \<Rightarrow> string \<Rightarrow> bool" where
  "found env params fen \<longleftrightarrow>
     snd (search env (reset_rule50 env (set_fen env fen)) (depth params) 1) \<noteq> []"

definition rescored ::
  "('sfen, 'move, 'pos) services \<Rightarrow> RescoreFenParams \<Rightarrow> string \<Rightarrow>
   ('sfen, 'move) PackedSfenValue" where
  "rescored env params fen =
     (let pos = reset_rule50 env (set_fen env fen);
          (search_value, search_pv) = search env pos (depth params) 1
      in \<lparr> sfen = sfen_pack env pos, score = search_value, move = search_pv ! 0,
            gamePly = 1, game_result = 0, padding = 0 \<rparr>)"

text \<open>
  The records that exist at some moment of a run: those written, those in the batch and
  those that a worker holds. As long as the run has not crashed they are the records of the
  lines searched so far that have a move; a crash is the last event of its trace.
\<close>

fun record_of :: "('sfen, 'move) worker \<Rightarrow> ('sfen, 'move) PackedSfenValue list" where
  "record_of (At_emplace ps) = [ps]"
| "record_of w = []"

definition held_records ::
  "('sfen, 'move) worker list \<Rightarrow> ('sfen, 'move) PackedSfenValue list" where
  "held_records ws = concat (map record_of ws)"

definition records_view :: "('sfen, 'move) pool \<Rightarrow> ('sfen, 'move) PackedSfenValue multiset" where
  "records_view st =
     mset (concat (writes (trace st))) + mset (buffer st) + mset (held_records (workers st))"

definition accounted ::
  "('sfen, 'move, 'pos) services \<Rightarrow> RescoreFenParams \<Rightarrow> ('sfen, 'move) pool \<Rightarrow> bool" where
  "accounted env params st \<longleftrightarrow>
     (if crashed st then trace st \<noteq> [] \<and> last (trace st) = Null_sink_write
      else records_view st
             = mset (map (rescored env params)
                 (filter (found env params) (search_calls (trace st)))))"

text \<open>A pool that has not crashed and has \<open>n\<close> workers.\<close>

definition sound :: "nat \<Rightarrow> ('sfen, 'move) pool \<Rightarrow> bool" where
  "sound n st \<longleftrightarrow> \<not> crashed st \<and> length (workers st) = n"

text \<open>A pool in which nothing is left to read and no record is under way.\<close>

definition idle :: "('sfen, 'move) pool \<Rightarrow> bool" where
  "idle st \<longleftrightarrow> fens_file st = [] \<and> buffer st = [] \<and> \<not> crashed st
                \<and> held_records (workers st) = []"

text \<open>The lines of the text input, and the flush that ends the static driver.\<close>

definition fens_of ::
  "('sfen, 'move, 'pos) services \<Rightarrow> RescoreFenParams \<Rightarrow> string list" where
  "fens_of env params =
     (case ifstream_lines env (rescore_input_filename params) of
        None \<Rightarrow> [] | Some lines \<Rightarrow> lines)"

definition final_flush :: "('sfen, 'move) writer \<Rightarrow> ('sfen, 'move) writer" where
  "final_flush w = (if buffer w \<noteq> [] then flush w else w)"

section \<open>Concrete collaborators\<close>

text \<open>
  To run the model on an input, the collaborators have to be concrete. \<open>exact_arith\<close>
  computes on the denoted values without rounding; the runs below never reach it, since
  they use the absolute mode. \<open>demo_services\<close> has one binary input of three records,
  one text input of five lines, evaluates every position to 100 and finds a one-move line
  for every position but \<open>''stalemate-position''\<close>.
\<close>

definition exact_arith :: f32_arith where
  "exact_arith =
     \<lparr> f32_of_i32 = (\<lambda>x. Finite (real_of_int (sint x))),
       f32_add = (\<lambda>a b. case (a, b) of (Finite x, Finite y) \<Rightarrow> Finite (x + y) | _ \<Rightarrow> NaN),
       f32_sub = (\<lambda>a b. case (a, b) of (Finite x, Finite y) \<Rightarrow> Finite (x - y) | _ \<Rightarrow> NaN),
       f32_mul = (\<lambda>a b. case (a, b) of (Finite x, Finite y) \<Rightarrow> Finite (x * y) | _ \<Rightarrow> NaN),
       f32_div = (\<lambda>a b. case (a, b) of
                           (Finite x, Finite y) \<Rightarrow> if y = 0 then NaN else Finite (x / y)
                         | _ \<Rightarrow> NaN),
       i32_of_f32 = (\<lambda>a. case a of
                            Finite x \<Rightarrow> word_of_int (if 0 \<le> x then \<lfloor>x\<rfloor> else \<lceil>x\<rceil>)
                          | _ \<Rightarrow> 0) \<rparr>"

definition demo_record :: "string \<Rightarrow> int \<Rightarrow> (string, string) PackedSfenValue" where
  "demo_record s v =
     \<lparr> sfen = s, score = v, move = ''e2e4'', gamePly = 7, game_result = 1, padding = 0 \<rparr>"

definition demo_lines :: "string list" where
  "demo_lines =
     [''8/8/8/8/8/8/8/K1k5 w - - 0 1'', ''short'', ''8/8/8/8/8/8/8/K2k4 w - - 0 1'',
      ''tiny'', ''stalemate-position'']"

definition demo_services :: "(string, string, string) services" where
  "demo_services =
     \<lparr> open_sfen_input_file =
         (\<lambda>name. if name = ''in.binpack''
                  then Some [demo_record ''a'' 200, demo_record ''b'' 50, demo_record ''c'' 103]
                  else None),
       create_new_sfen_output = (\<lambda>name. name = ''out.binpack''),
       ifstream_lines = (\<lambda>name. if name = ''in.epd'' then Some demo_lines else None),
       set_from_packed_sfen = (\<lambda>s. s),
       set_fen = (\<lambda>fen. fen),
       reset_rule50 = (\<lambda>pos. pos),
       sfen_pack = (\<lambda>pos. pos),
       evaluate = (\<lambda>pos. 100),
       search = (\<lambda>pos d multi_pv.
                   if pos = ''stalemate-position'' then (0, []) else (int (length pos), [''a1a2''])),
       arith = exact_arith,
       stream_int = (\<lambda>t. if t = ''10'' then (10, True) else if t = ''7'' then (7, True)
                          else (0, False)),
       stream_float = (\<lambda>t. if t = ''0.5'' then (Finite (1 / 2), True) else (Finite 0, False)),
       num_workers = 2,
       schedule = [0, 1, 1, 0, 0] \<rparr>"

text \<open>A pool of two workers, and the record that the search of the first line yields.\<close>

definition demo_pool ::
  "(string, string) worker list \<Rightarrow> string list \<Rightarrow> (string, string) pool" where
  "demo_pool ws fens =
     \<lparr> buffer = [], num_processed = 0, trace = [], fens_file = fens, workers = ws,
       crashed = False \<rparr>"

definition demo_rescored :: "(string, string) PackedSfenValue" where
  "demo_rescored =
     \<lparr> sfen = ''8/8/8/8/8/8/8/K1k5 w - - 0 1'', score = 28, move = ''a1a2'', gamePly = 1,
       game_result = 0, padding = 0 \<rparr>"

section \<open>Word arithmetic without overflow\<close>

lemma sint_scast_16_32: "sint (scast (x :: i16) :: i32) = sint x"
  by (simp add: sint_up_scast is_up)

lemma sint16_bounds: "- 32768 \<le> sint (x :: i16) \<and> sint x \<le> 32767"
  using sint_ge [of x] sint_lt [of x] by simp

lemma sint_sub_small:
  fixes a b :: i32
  assumes "- 2147483648 \<le> sint a - sint b" "sint a - sint b < 2147483648"
  shows "sint (a - b) = sint a - sint b"
proof -
  have "sint (a - b) = signed_take_bit 31 (sint a - sint b)"
    by (simp add: sint_word_ariths)
  also have "\<dots> = sint a - sint b"
    by (rule signed_take_bit_int_eq_self) (use assms in simp_all)
  finally show ?thesis .
qed

lemma sint_add_small:
  fixes a b :: i32
  assumes "- 2147483648 \<le> sint a + sint b" "sint a + sint b < 2147483648"
  shows "sint (a + b) = sint a + sint b"
proof -
  have "sint (a + b) = signed_take_bit 31 (sint a + sint b)"
    by (simp add: sint_word_ariths)
  also have "\<dots> = sint a + sint b"
    by (rule signed_take_bit_int_eq_self) (use assms in simp_all)
  finally show ?thesis .
qed

lemma sint_neg_small:
  fixes a :: i32
  assumes "- 2147483648 < sint a"
  shows "sint (- a) = - sint a"
proof -
  have "sint (- a) = signed_take_bit 31 (- sint a)"
    by (simp add: sint_word_ariths)
  also have "\<dots> = - sint a"
    by (rule signed_take_bit_int_eq_self) (use assms sint_lt [of a] in simp_all)
  finally show ?thesis .
qed

lemma sint_scast_32_16:
  fixes a :: i32
  assumes "- 32768 \<le> sint a" "sint a \<le> 32767"
  shows "sint (scast a :: i16) = sint a"
proof -
  have "sint (scast a :: i16) = signed_take_bit 15 (sint a)"
    by (simp add: signed_scast_eq)
  also have "\<dots> = sint a"
    by (rule signed_take_bit_int_eq_self) (use assms in simp_all)
  finally show ?thesis .
qed

lemma sint_std_clamp_i32:
  "sint (std_clamp_i32 v lo hi) =
     (if sint v < sint lo then sint lo else if sint hi < sint v then sint hi else sint v)"
  by (simp add: std_clamp_i32_def word_sless_alt)

lemma sint_saturate_i32_to_i16:
  "sint (saturate_i32_to_i16 v) = max (- 32768) (min 32767 (sint v))"
proof -
  let ?c = "std_clamp_i32 v (- 32768) 32767"
  have c: "sint ?c = (if sint v < - 32768 then - 32768 else if 32767 < sint v then 32767 else sint v)"
    by (simp add: sint_std_clamp_i32)
  then have "- 32768 \<le> sint ?c" "sint ?c \<le> 32767"
    by (simp_all split: if_splits)
  then have "sint (scast ?c :: i16) = sint ?c"
    by (rule sint_scast_32_16)
  with c show ?thesis
    by (simp add: saturate_i32_to_i16_def)
qed

section \<open>The absolute mode\<close>

lemma sint_absolute_sum:
  fixes s d :: i16 and c :: i32
  assumes c: "0 \<le> sint c"
  shows "sint (scast s + std_clamp_i32 (scast d - scast s) (- c) c :: i32) =
           sint s + max (- sint c) (min (sint c) (sint d - sint s))"
proof -
  let ?S = "scast s :: i32" and ?D = "scast d :: i32"
  let ?K = "max (- sint c) (min (sint c) (sint d - sint s))"
  have bs: "- 32768 \<le> sint s" "sint s \<le> 32767" and bd: "- 32768 \<le> sint d" "sint d \<le> 32767"
    using sint16_bounds [of s] sint16_bounds [of d] by simp_all
  have diff: "sint (?D - ?S) = sint d - sint s"
    using bs bd by (simp add: sint_sub_small sint_scast_16_32)
  have neg: "sint (- c) = - sint c"
    using c by (simp add: sint_neg_small)
  have k: "sint (std_clamp_i32 (?D - ?S) (- c) c) = ?K"
    using c by (simp add: sint_std_clamp_i32 diff neg)
  have kb: "\<bar>?K\<bar> \<le> \<bar>sint d - sint s\<bar>"
    using c by simp
  show ?thesis
    using bs bd kb by (simp add: sint_add_small sint_scast_16_32 k)
qed

lemma sint_nudge_absolute:
  assumes "mode params = Absolute" and "0 \<le> sint (absolute_nudge params)"
  shows "sint (nudge fl params static deep) =
           sint static + max (- sint (absolute_nudge params))
                           (min (sint (absolute_nudge params)) (sint deep - sint static))"
proof -
  let ?C = "sint (absolute_nudge params)"
  let ?K = "max (- ?C) (min ?C (sint deep - sint static))"
  have bs: "- 32768 \<le> sint static" "sint static \<le> 32767"
    and bd: "- 32768 \<le> sint deep" "sint deep \<le> 32767"
    using sint16_bounds [of static] sint16_bounds [of deep] by simp_all
  have r: "sint (nudge fl params static deep) = max (- 32768) (min 32767 (sint static + ?K))"
    using assms by (simp add: nudge_def Let_def sint_saturate_i32_to_i16 sint_absolute_sum)
  have kd: "min 0 (sint deep - sint static) \<le> ?K" "?K \<le> max 0 (sint deep - sint static)"
    using assms(2) by (auto simp add: max_def min_def)
  have "- 32768 \<le> sint static + ?K" "sint static + ?K \<le> 32767"
    using bs bd kd by linarith+
  then show ?thesis
    using r by simp
qed

text \<open>
  C1. In absolute mode with a cap \<open>C \<ge> 0\<close>, \<open>nudge\<close> returns the saturation to the
  signed 16-bit range of \<open>static + clamp(deep - static, -C, +C)\<close>. The result lies within
  \<open>[static - C, static + C]\<close> and within the 16-bit range, and it is \<open>static\<close> when
  \<open>deep\<close> is \<open>static\<close>.
\<close>

theorem nudge_absolute_saturated_clamp:
  assumes "mode params = Absolute" and "0 \<le> sint (absolute_nudge params)"
  shows "sint (nudge fl params static deep) =
           max (- 32768) (min 32767
             (sint static + max (- sint (absolute_nudge params))
                              (min (sint (absolute_nudge params)) (sint deep - sint static))))
         \<and> sint static - sint (absolute_nudge params) \<le> sint (nudge fl params static deep)
         \<and> sint (nudge fl params static deep) \<le> sint static + sint (absolute_nudge params)
         \<and> - 32768 \<le> sint (nudge fl params static deep)
         \<and> sint (nudge fl params static deep) \<le> 32767
         \<and> nudge fl params static static = static"
proof -
  let ?C = "sint (absolute_nudge params)"
  let ?K = "max (- ?C) (min ?C (sint deep - sint static))"
  let ?r = "sint (nudge fl params static deep)"
  have r: "?r = sint static + ?K"
    using assms by (rule sint_nudge_absolute)
  have range: "- 32768 \<le> ?r" "?r \<le> 32767"
    using sint16_bounds [of "nudge fl params static deep"] by simp_all
  have kb: "- ?C \<le> ?K" "?K \<le> ?C"
    using assms(2) by simp_all
  have "sint (nudge fl params static static) = sint static"
    using assms by (simp add: sint_nudge_absolute)
  then have same: "nudge fl params static static = static"
    by (rule signed_word_eqI)
  have sat: "?r = max (- 32768) (min 32767 (sint static + ?K))"
    using r range by simp
  show ?thesis
    using sat r kb range same by simp
qed

theorem nudge_absolute_saturated_clamp_witness:
  "mode (NudgedStaticParams_default\<lparr>absolute_nudge := 10\<rparr>) = Absolute
   \<and> 0 \<le> sint (absolute_nudge (NudgedStaticParams_default\<lparr>absolute_nudge := 10\<rparr>))
   \<and> sint (nudge exact_arith (NudgedStaticParams_default\<lparr>absolute_nudge := 10\<rparr>) 100 200) = 110
   \<and> sint (nudge exact_arith (NudgedStaticParams_default\<lparr>absolute_nudge := 10\<rparr>) 100 50) = 90"
  using nudge_absolute_saturated_clamp
      [of "NudgedStaticParams_default\<lparr>absolute_nudge := 10\<rparr>" exact_arith 100 200]
    nudge_absolute_saturated_clamp
      [of "NudgedStaticParams_default\<lparr>absolute_nudge := 10\<rparr>" exact_arith 100 50]
  by (simp add: NudgedStaticParams_default_def)

section \<open>Constraint enforcement\<close>




section \<open>Defaults of the parameters\<close>
















section \<open>The dispatcher\<close>

text \<open>
  C9. For a subcommand other than \<open>nudged_static\<close> and \<open>rescore_fen\<close> the dispatcher
  initialises the evaluator, prints the invalid name and does nothing else: no driver runs,
  no file is opened or written. The two names are looked up in the table and lead to their
  command; the initialisation is the first event of every run.
\<close>

theorem transform_unknown_subcommand:
  "(subcommand \<noteq> ''nudged_static'' \<and> subcommand \<noteq> ''rescore_fen'' \<longrightarrow>
      transform env (subcommand # rest) = [NNUE_init, Cout (Invalid_subcommand subcommand)])
   \<and> transform env [] = [NNUE_init, Cout (Invalid_subcommand [])]
   \<and> transform env (''nudged_static'' # rest) = NNUE_init # nudged_static env rest
   \<and> transform env (''rescore_fen'' # rest) = NNUE_init # rescore_fen env rest
   \<and> take 1 (transform env is) = [NNUE_init]"
  by (simp add: transform_def subcommands_def extract_string_def Let_def)

theorem transform_unknown_subcommand_witness:
  "''bogus'' \<noteq> ''nudged_static'' \<and> ''bogus'' \<noteq> ''rescore_fen''
   \<and> transform demo_services [''bogus'', ''depth'', ''7'']
       = [NNUE_init, Cout (Invalid_subcommand ''bogus'')]
   \<and> transform demo_services [''Rescore_fen'']
       = [NNUE_init, Cout (Invalid_subcommand ''Rescore_fen'')]"
  using transform_unknown_subcommand [of "''bogus''" demo_services "[''depth'', ''7'']"]
    transform_unknown_subcommand [of "''Rescore_fen''" demo_services "[]"]
  by simp

section \<open>Batches of the static driver\<close>

lemma writes_append [simp]: "writes (tr @ tr') = writes tr @ writes tr'"
  by (induction tr rule: writes.induct) simp_all

lemma reported_append [simp]: "reported (tr @ tr') = reported tr @ reported tr'"
  by (induction tr rule: reported.induct) simp_all

lemma ceil_div_small:
  fixes b T :: nat
  assumes "0 < b" "b < T"
  shows "(b + T - 1) div T = 1"
proof -
  obtain b' where b: "b = Suc b'"
    using assms(1) by (cases b) simp_all
  have "(b + T - 1) div T = (b' + T) div T"
    by (simp add: b)
  also have "\<dots> = b' div T + 1"
    using assms by (simp add: div_add_self2)
  also have "\<dots> = 1"
    using assms b by simp
  finally show ?thesis .
qed

lemma ceil_div_full:
  fixes n T :: nat
  assumes "0 < T"
  shows "(T + n + T - 1) div T = Suc ((n + T - 1) div T)"
proof -
  have "T + n + T - 1 = (n + T - 1) + T"
    using assms by simp
  then have "(T + n + T - 1) div T = ((n + T - 1) + T) div T"
    by simp
  also have "\<dots> = (n + T - 1) div T + 1"
    using assms by (simp only: div_add_self2 [OF less_imp_neq [THEN not_sym]])
  finally show ?thesis by simp
qed

lemma buffer_flush [simp]: "buffer (flush w) = []"
  and num_processed_flush [simp]:
    "num_processed (flush w) = num_processed w + of_nat (length (buffer w))"
  and writes_flush [simp]: "writes (trace (flush w)) = writes (trace w) @ [buffer w]"
  and last_reported_flush [simp]: "last_reported (trace (flush w)) = num_processed (flush w)"
  by (simp_all add: flush_def Let_def last_reported_def)

lemma streaming_batches:
  assumes "0 < T" "length (buffer w) < T" "last_reported (trace w) = num_processed w"
  shows "concat (writes (trace (final_flush (streaming env params T xs w))))
           = concat (writes (trace w)) @ buffer w @ map (nudge_record env params) xs
       \<and> length (writes (trace (final_flush (streaming env params T xs w))))
           = length (writes (trace w)) + (length (buffer w) + length xs + T - 1) div T
       \<and> num_processed (final_flush (streaming env params T xs w))
           = num_processed w + of_nat (length (buffer w) + length xs)
       \<and> last_reported (trace (final_flush (streaming env params T xs w)))
           = num_processed (final_flush (streaming env params T xs w))"
  using assms
proof (induction xs arbitrary: w)
  case Nil
  show ?case
  proof (cases "buffer w = []")
    case True
    then show ?thesis using Nil by (simp add: final_flush_def)
  next
    case False
    then have "(length (buffer w) + T - 1) div T = 1"
      using Nil.prems(2) by (intro ceil_div_small) simp_all
    then show ?thesis using False by (simp add: final_flush_def)
  qed
next
  case (Cons x xs)
  let ?w1 = "w\<lparr> buffer := buffer w @ [nudge_record env params x] \<rparr>"
  show ?case
  proof (cases "T \<le> length (buffer ?w1)")
    case True
    then have full: "Suc (length (buffer w)) = T"
      using Cons.prems(2) by simp
    have step: "streaming env params T (x # xs) w = streaming env params T xs (flush ?w1)"
      using True by (simp add: Let_def)
    have pre: "length (buffer (flush ?w1)) < T"
      "last_reported (trace (flush ?w1)) = num_processed (flush ?w1)"
      using Cons.prems(1) by simp_all
    note ih = Cons.IH [OF Cons.prems(1) pre]
    have "length (buffer w) + length (x # xs) + T - 1 = T + length xs + T - 1"
      using full by simp
    then have cnt: "(length (buffer w) + length (x # xs) + T - 1) div T
                 = Suc ((length xs + T - 1) div T)"
      using ceil_div_full [OF Cons.prems(1), of "length xs"] by simp
    have np: "num_processed w + of_nat (length (buffer w) + length (x # xs))
                = num_processed w + of_nat T + of_nat (length xs)"
      using full [symmetric] by simp
    show ?thesis
      unfolding step cnt np using ih full by simp
  next
    case False
    then have step: "streaming env params T (x # xs) w = streaming env params T xs ?w1"
      by (simp add: Let_def)
    have pre: "length (buffer ?w1) < T" "last_reported (trace ?w1) = num_processed ?w1"
      using False Cons.prems(3) by simp_all
    note ih = Cons.IH [OF Cons.prems(1) pre]
    show ?thesis
      unfolding step using ih by simp
  qed
qed

lemma do_nudged_static_streaming:
  assumes "open_sfen_input_file env (input_filename params) = Some records"
    and "create_new_sfen_output env (output_filename params)"
  shows "do_nudged_static env params =
           trace (final_flush (streaming env params 1000000 records
             \<lparr> buffer = [], num_processed = 0,
               trace = [Open_sfen_input (input_filename params),
                        Create_sfen_output (output_filename params)] \<rparr>)) @ [Cout Finished]"
  using assms by (simp add: do_nudged_static_def final_flush_def Let_def)

lemma last_reported_snoc_Finished [simp]:
  "last_reported (tr @ [Cout Finished]) = last_reported tr"
  by (simp add: last_reported_def)

text \<open>
  C6. When source and sink exist and the source holds \<open>R\<close> records, the static driver
  flushes batches whose sizes sum to \<open>R\<close>, in \<open>ceil(R / 1000000)\<close> flushes; the count
  it reported last is \<open>R\<close> (as a \<open>uint64_t\<close>), and the records written are, in input
  order, the nudged input records.
\<close>

theorem static_driver_batches:
  assumes "open_sfen_input_file env (input_filename params) = Some records"
    and "create_new_sfen_output env (output_filename params)"
  shows "sum_list (map length (writes (do_nudged_static env params))) = length records
       \<and> length (writes (do_nudged_static env params)) = (length records + 999999) div 1000000
       \<and> last_reported (do_nudged_static env params) = of_nat (length records)
       \<and> concat (writes (do_nudged_static env params)) = map (nudge_record env params) records"
proof -
  let ?w0 = "\<lparr> buffer = [], num_processed = 0,
               trace = [Open_sfen_input (input_filename params),
                        Create_sfen_output (output_filename params)] \<rparr>
             :: ('a, 'b) writer"
  have w0: "(0::nat) < 1000000" "length (buffer ?w0) < 1000000"
    "last_reported (trace ?w0) = num_processed ?w0"
    by (simp_all add: last_reported_def)
  note b = streaming_batches [OF w0, of env params records]
  note d = do_nudged_static_streaming [OF assms]
  have order: "concat (writes (do_nudged_static env params)) = map (nudge_record env params) records"
    unfolding d using b by simp
  have "sum_list (map length (writes (do_nudged_static env params)))
          = length (concat (writes (do_nudged_static env params)))"
    by (simp add: length_concat)
  then have total: "sum_list (map length (writes (do_nudged_static env params))) = length records"
    unfolding order by simp
  have flushes: "length (writes (do_nudged_static env params)) = (length records + 999999) div 1000000"
    unfolding d using b by simp
  have counter: "last_reported (do_nudged_static env params) = of_nat (length records)"
    unfolding d using b by simp
  show ?thesis
    using total flushes counter order by blast
qed

theorem static_driver_batches_witness:
  "open_sfen_input_file demo_services (input_filename NudgedStaticParams_default)
     = Some [demo_record ''a'' 200, demo_record ''b'' 50, demo_record ''c'' 103]
   \<and> create_new_sfen_output demo_services (output_filename NudgedStaticParams_default)
   \<and> sum_list (map length (writes (do_nudged_static demo_services NudgedStaticParams_default))) = 3
   \<and> length (writes (do_nudged_static demo_services NudgedStaticParams_default)) = 1
   \<and> last_reported (do_nudged_static demo_services NudgedStaticParams_default) = 3
   \<and> concat (writes (do_nudged_static demo_services NudgedStaticParams_default))
       = map (nudge_record demo_services NudgedStaticParams_default)
           [demo_record ''a'' 200, demo_record ''b'' 50, demo_record ''c'' 103]"
proof -
  have i: "open_sfen_input_file demo_services (input_filename NudgedStaticParams_default)
     = Some [demo_record ''a'' 200, demo_record ''b'' 50, demo_record ''c'' 103]"
    by (simp add: demo_services_def NudgedStaticParams_default_def)
  have out: "create_new_sfen_output demo_services (output_filename NudgedStaticParams_default)"
    by (simp add: demo_services_def NudgedStaticParams_default_def)
  show ?thesis
    using static_driver_batches [OF i out] i out by simp
qed

section \<open>The worker pool\<close>

lemma search_calls_append [simp]:
  "search_calls (tr @ tr') = search_calls tr @ search_calls tr'"
  by (induction tr rule: search_calls.induct) simp_all

lemma cerr_lines_append [simp]: "cerr_lines (tr @ tr') = cerr_lines tr @ cerr_lines tr'"
  by (induction tr rule: cerr_lines.induct) simp_all

lemma searched_Nil [simp]: "searched k [] = []"
  by (cases k) simp_all

lemma update_as_append:
  assumes "i < length ws"
  shows "ws = take i ws @ ws ! i # drop (Suc i) ws"
    and "ws[i := w] = take i ws @ w # drop (Suc i) ws"
  using assms by (simp_all add: id_take_nth_drop upd_conv_take_nth_drop)

lemma alive_update:
  assumes "i < length ws" "ws ! i \<noteq> Returned"
  shows "alive (ws[i := w]) = (if w = Returned then alive ws - 1 else alive ws)"
    and "0 < alive ws"
proof -
  note split = update_as_append [OF assms(1)]
  have old: "alive ws = alive (take i ws) + 1 + alive (drop (Suc i) ws)"
    using assms(2) by (subst split(1)) (simp add: alive_def)
  then show "0 < alive ws"
    by simp
  have "alive (ws[i := w]) =
          alive (take i ws) + (if w = Returned then 0 else 1) + alive (drop (Suc i) ws)"
    by (subst split(2)) (simp add: alive_def)
  with old show "alive (ws[i := w]) = (if w = Returned then alive ws - 1 else alive ws)"
    by simp
qed

lemma alive_0: "(\<forall>j < length ws. ws ! j = Returned) \<Longrightarrow> alive ws = 0"
  by (auto simp add: alive_def filter_empty_conv in_set_conv_nth)

lemma alive_replicate [simp]: "alive (replicate k At_next_fen) = k"
  by (simp add: alive_def)

lemma held_records_update:
  assumes "i < length ws"
  shows "mset (held_records (ws[i := w])) + mset (record_of (ws ! i))
           = mset (held_records ws) + mset (record_of w)"
proof -
  note split = update_as_append [OF assms]
  have "mset (held_records ws) =
          mset (held_records (take i ws)) + mset (record_of (ws ! i))
            + mset (held_records (drop (Suc i) ws))"
    by (subst split(1)) (simp add: held_records_def)
  moreover have "mset (held_records (ws[i := w])) =
          mset (held_records (take i ws)) + mset (record_of w)
            + mset (held_records (drop (Suc i) ws))"
    by (subst split(2)) (simp add: held_records_def)
  ultimately show ?thesis by simp
qed

lemma held_records_alive_0:
  assumes "alive ws = 0"
  shows "held_records ws = []"
proof -
  have "filter (\<lambda>w. w \<noteq> Returned) ws = []"
    using assms by (simp add: alive_def)
  then have "\<forall>w \<in> set ws. w = Returned"
    by (simp add: filter_empty_conv)
  then show ?thesis
    by (auto simp add: held_records_def)
qed

lemma held_records_replicate [simp]: "held_records (replicate k At_next_fen) = []"
  by (simp add: held_records_def)

subsection \<open>What one step keeps\<close>

lemma length_workers_worker_step [simp]:
  "length (workers (worker_step env params batch_size out i st)) = length (workers st)"
  by (simp add: worker_step_def next_fen_def Let_def flush_def
      split: worker.split list.split prod.split)

lemma crashed_worker_step_mono:
  "crashed st \<Longrightarrow> crashed (worker_step env params batch_size out i st)"
  by (simp add: worker_step_def)

lemma crashed_worker_step:
  "out \<Longrightarrow> crashed (worker_step env params batch_size out i st) = crashed st"
  by (simp add: worker_step_def next_fen_def Let_def flush_def
      split: worker.split list.split prod.split)

lemma sound_worker_step:
  "out \<Longrightarrow> sound n st \<Longrightarrow> sound n (worker_step env params batch_size out i st)"
  by (simp add: sound_def crashed_worker_step)

lemma Returned_worker_step:
  "workers st ! j = Returned \<Longrightarrow> workers (worker_step env params batch_size out i st) ! j = Returned"
  by (cases "i = j")
     (auto simp add: worker_step_def next_fen_def Let_def flush_def
      split: worker.split list.split prod.split)

lemma cerr_lines_worker_step:
  "cerr_lines (trace (worker_step env params batch_size out i st)) = cerr_lines (trace st)"
  by (simp add: worker_step_def next_fen_def Let_def flush_def
      split: worker.split list.split prod.split)

lemma writes_worker_step_no_sink:
  "writes (trace (worker_step env params batch_size False i st)) = writes (trace st)"
  by (simp add: worker_step_def next_fen_def Let_def
      split: worker.split list.split prod.split)

lemma cursor_view_worker_step:
  "cursor_view (worker_step env params batch_size out i st) = cursor_view st"
proof (cases "crashed st \<or> length (workers st) \<le> i")
  case True
  then show ?thesis by (simp add: worker_step_def)
next
  case False
  then have i: "i < length (workers st)" by simp
  show ?thesis
  proof (cases "workers st ! i")
    case Returned
    then show ?thesis using False by (simp add: worker_step_def)
  next
    case (At_emplace ps)
    then show ?thesis
      using False i
      by (simp add: worker_step_def cursor_view_def Let_def flush_def alive_update)
  next
    case At_next_fen
    then have al: "workers st ! i \<noteq> Returned" by simp
    obtain k where k: "alive (workers st) = Suc k"
      using alive_update(2) [OF i al] by (cases "alive (workers st)") simp_all
    show ?thesis
    proof (cases "fens_file st")
      case Nil
      then show ?thesis
        using False At_next_fen by (simp add: worker_step_def cursor_view_def next_fen_def)
    next
      case (Cons fen rest)
      then show ?thesis
        using False At_next_fen i al k
        by (cases "10 \<le> length fen")
           (simp_all add: worker_step_def cursor_view_def next_fen_def Let_def alive_update
              split: prod.split)
    qed
  qed
qed

lemma accounted_worker_step:
  assumes "accounted env params st"
  shows "accounted env params (worker_step env params batch_size out i st)"
proof (cases "crashed st \<or> length (workers st) \<le> i")
  case True
  then show ?thesis using assms by (simp add: worker_step_def)
next
  case False
  then have i: "i < length (workers st)" and nc: "\<not> crashed st" by simp_all
  note view = assms [unfolded accounted_def records_view_def, simplified nc, simplified]
  show ?thesis
  proof (cases "workers st ! i")
    case Returned
    then show ?thesis using False assms by (simp add: worker_step_def)
  next
    case (At_emplace ps)
    have held: "mset (held_records ((workers st)[i := At_next_fen])) + {#ps#}
                  = mset (held_records (workers st))"
      using held_records_update [OF i, of At_next_fen] At_emplace by simp
    show ?thesis
      using False At_emplace view held [symmetric]
      by (simp add: worker_step_def accounted_def records_view_def Let_def flush_def)
  next
    case At_next_fen
    show ?thesis
    proof (cases "fens_file st")
      case Nil
      have "mset (held_records ((workers st)[i := Returned])) = mset (held_records (workers st))"
        using held_records_update [OF i, of Returned] At_next_fen by simp
      then show ?thesis
        using False At_next_fen Nil view
        by (simp add: worker_step_def accounted_def records_view_def next_fen_def)
    next
      case (Cons fen rest)
      show ?thesis
      proof (cases "10 \<le> length fen")
        case short: False
        have "mset (held_records ((workers st)[i := Returned])) = mset (held_records (workers st))"
          using held_records_update [OF i, of Returned] At_next_fen by simp
        then show ?thesis
          using False At_next_fen Cons short view
          by (simp add: worker_step_def accounted_def records_view_def next_fen_def)
      next
        case True
        have held: "mset (held_records ((workers st)[i := At_emplace (rescored env params fen)]))
                      = mset (held_records (workers st)) + {#rescored env params fen#}"
          using held_records_update [OF i, of "At_emplace (rescored env params fen)"] At_next_fen
          by simp
        show ?thesis
          using False At_next_fen Cons True view held
          by (cases "search env (reset_rule50 env (set_fen env fen)) (depth params) 1")
             (simp add: worker_step_def accounted_def records_view_def next_fen_def Let_def
                found_def rescored_def)
      qed
    qed
  qed
qed

lemma idle_worker_step:
  assumes "idle st \<and> trace st = tr"
  shows "idle (worker_step env params batch_size out i st)
       \<and> trace (worker_step env params batch_size out i st) = tr"
proof (cases "length (workers st) \<le> i")
  case True
  then show ?thesis using assms by (simp add: worker_step_def)
next
  case False
  then have i: "i < length (workers st)" by simp
  show ?thesis
  proof (cases "workers st ! i")
    case Returned
    then show ?thesis using assms by (simp add: worker_step_def)
  next
    case (At_emplace ps)
    then have "ps \<in> set (held_records (workers st))"
      using i by (force simp add: held_records_def in_set_conv_nth)
    then have False using assms by (simp add: idle_def)
    then show ?thesis ..
  next
    case At_next_fen
    have "mset (held_records ((workers st)[i := Returned])) = mset (held_records (workers st))"
      using held_records_update [OF i, of Returned] At_next_fen by simp
    then have "held_records ((workers st)[i := Returned]) = []"
      using assms by (simp add: idle_def)
    then show ?thesis
      using assms At_next_fen i by (simp add: worker_step_def next_fen_def idle_def)
  qed
qed

subsection \<open>What a run of the pool keeps\<close>

text \<open>
  A property of the pool that no step of a worker destroys holds throughout: after any
  number of steps of one worker, after the steps of the schedule and after the join.
\<close>

lemma pool_invariant:
  assumes step: "\<And>i st. I st \<Longrightarrow> I (worker_step env params batch_size out i st)"
    and "I st"
  shows "I ((worker_step env params batch_size out i ^^ m) st)"
    and "I (run_to_return env params batch_size out i st)"
    and "I (fold (run_to_return env params batch_size out) js st)"
    and "I (execute_with_workers env params batch_size out st)"
    and "I (wait_for_workers_finished env params batch_size out st)"
proof -
  have pow: "I ((worker_step env params batch_size out i ^^ m) st')" if "I st'" for i m st'
    using that by (induction m) (simp_all add: step)
  have run: "I (run_to_return env params batch_size out i st')" if "I st'" for i st'
    unfolding run_to_return_def using that by (rule pow)
  have join: "I (fold (run_to_return env params batch_size out) js st')" if "I st'" for js st'
    using that by (induction js arbitrary: st') (simp_all add: run)
  have sched: "I (fold (worker_step env params batch_size out) is st')" if "I st'" for "is" st'
    using that by (induction "is" arbitrary: st') (simp_all add: step)
  show "I ((worker_step env params batch_size out i ^^ m) st)"
    using assms(2) by (rule pow)
  show "I (run_to_return env params batch_size out i st)"
    using assms(2) by (rule run)
  show "I (fold (run_to_return env params batch_size out) js st)"
    using assms(2) by (rule join)
  show "I (execute_with_workers env params batch_size out st)"
    unfolding execute_with_workers_def using assms(2) by (rule sched)
  show "I (wait_for_workers_finished env params batch_size out st)"
    unfolding wait_for_workers_finished_def using assms(2) by (rule join)
qed

lemma rescore_pool_eq:
  "rescore_pool env params =
     wait_for_workers_finished env params 10000
       (create_new_sfen_output env (rescore_output_filename params))
       (execute_with_workers env params 10000
          (create_new_sfen_output env (rescore_output_filename params))
          \<lparr> buffer = [], num_processed = 0,
            trace = [Open_ifstream (rescore_input_filename params),
                     Create_sfen_output (rescore_output_filename params)],
            fens_file = fens_of env params,
            workers = replicate (num_workers env) At_next_fen, crashed = False \<rparr>)"
  by (simp add: rescore_pool_def fens_of_def Let_def)

lemma rescore_pool_invariant:
  assumes "\<And>i st. I st \<Longrightarrow>
             I (worker_step env params 10000
                  (create_new_sfen_output env (rescore_output_filename params)) i st)"
    and "I \<lparr> buffer = [], num_processed = 0,
            trace = [Open_ifstream (rescore_input_filename params),
                     Create_sfen_output (rescore_output_filename params)],
            fens_file = fens_of env params,
            workers = replicate (num_workers env) At_next_fen, crashed = False \<rparr>"
  shows "I (rescore_pool env params)"
proof -
  let ?out = "create_new_sfen_output env (rescore_output_filename params)"
  let ?st = "\<lparr> buffer = [], num_processed = 0,
            trace = [Open_ifstream (rescore_input_filename params),
                     Create_sfen_output (rescore_output_filename params)],
            fens_file = fens_of env params,
            workers = replicate (num_workers env) At_next_fen, crashed = False \<rparr>"
  have "I (execute_with_workers env params 10000 ?out ?st)"
    using assms by (rule pool_invariant(4) [where I = I])
  then have "I (wait_for_workers_finished env params 10000 ?out
                 (execute_with_workers env params 10000 ?out ?st))"
    by (rule pool_invariant(5) [where I = I, rotated]) (rule assms(1))
  then show ?thesis
    by (simp only: rescore_pool_eq)
qed

subsection \<open>Every worker returns\<close>

lemma steps_left_worker_step:
  assumes "\<not> crashed (worker_step env params batch_size out i st)" "i < length (workers st)"
  shows "steps_left (worker_step env params batch_size out i st) i \<le> steps_left st i - 1"
  using assms
  by (auto simp add: worker_step_def steps_left_def next_fen_def Let_def flush_def
      split: worker.split list.split prod.split if_splits)

lemma steps_left_funpow:
  assumes "\<not> crashed ((worker_step env params batch_size out i ^^ m) st)"
    and "i < length (workers st)"
  shows "steps_left ((worker_step env params batch_size out i ^^ m) st) i \<le> steps_left st i - m"
  using assms(1)
proof (induction m)
  case 0
  show ?case by simp
next
  case (Suc m)
  let ?st = "(worker_step env params batch_size out i ^^ m) st"
  have nc: "\<not> crashed (worker_step env params batch_size out i ?st)"
    using Suc.prems by simp
  then have "\<not> crashed ?st"
    using crashed_worker_step_mono by blast
  then have ih: "steps_left ?st i \<le> steps_left st i - m"
    by (rule Suc.IH)
  have "length (workers ?st) = length (workers st)"
    by (rule pool_invariant(1) [where I = "\<lambda>s. length (workers s) = length (workers st)"])
       simp_all
  then have "i < length (workers ?st)"
    using assms(2) by simp
  with nc have "steps_left (worker_step env params batch_size out i ?st) i \<le> steps_left ?st i - 1"
    by (rule steps_left_worker_step)
  with ih show ?case by simp
qed

lemma run_to_return_Returned:
  assumes "\<not> crashed (run_to_return env params batch_size out i st)" "i < length (workers st)"
  shows "workers (run_to_return env params batch_size out i st) ! i = Returned"
proof -
  have "steps_left (run_to_return env params batch_size out i st) i
          \<le> steps_left st i - (2 * length (fens_file st) + 2)"
    using assms unfolding run_to_return_def by (rule steps_left_funpow)
  moreover have "steps_left st i \<le> 2 * length (fens_file st) + 2"
    by (simp add: steps_left_def split: worker.split)
  ultimately have "steps_left (run_to_return env params batch_size out i st) i = 0"
    by simp
  then show ?thesis
    by (simp add: steps_left_def split: worker.splits)
qed

lemma fold_run_to_return_Returned:
  assumes "\<not> crashed (fold (run_to_return env params batch_size out) js st)"
    and "j \<in> set js" "j < length (workers st)"
  shows "workers (fold (run_to_return env params batch_size out) js st) ! j = Returned"
  using assms(1,2)
proof (induction js rule: rev_induct)
  case Nil
  then show ?case by simp
next
  case (snoc i js)
  let ?st = "fold (run_to_return env params batch_size out) js st"
  have nc': "\<not> crashed (run_to_return env params batch_size out i ?st)"
    using snoc.prems(1) by simp
  have nc: "\<not> crashed ?st"
  proof
    assume "crashed ?st"
    then have "crashed (run_to_return env params batch_size out i ?st)"
      by (rule pool_invariant(2) [where I = crashed, rotated]) (rule crashed_worker_step_mono)
    with nc' show False ..
  qed
  have len: "length (workers ?st) = length (workers st)"
    by (rule pool_invariant(3) [where I = "\<lambda>s. length (workers s) = length (workers st)"])
       simp_all
  show ?case
  proof (cases "j = i")
    case True
    have "workers (run_to_return env params batch_size out i ?st) ! i = Returned"
      using nc' len assms(3) True by (intro run_to_return_Returned) simp_all
    then show ?thesis using True by simp
  next
    case False
    then have "workers ?st ! j = Returned"
      using snoc nc by simp
    then have "workers (run_to_return env params batch_size out i ?st) ! j = Returned"
      by (rule pool_invariant(2) [where I = "\<lambda>s. workers s ! j = Returned", rotated])
         (rule Returned_worker_step)
    then show ?thesis by simp
  qed
qed

lemma wait_for_workers_finished_alive:
  assumes "\<not> crashed (wait_for_workers_finished env params batch_size out st)"
  shows "alive (workers (wait_for_workers_finished env params batch_size out st)) = 0"
proof -
  let ?st' = "wait_for_workers_finished env params batch_size out st"
  have len: "length (workers ?st') = length (workers st)"
    by (rule pool_invariant(5) [where I = "\<lambda>s. length (workers s) = length (workers st)"])
       simp_all
  have "workers ?st' ! j = Returned" if "j < length (workers st)" for j
    using assms that unfolding wait_for_workers_finished_def
    by (intro fold_run_to_return_Returned) simp_all
  then show ?thesis
    using len by (intro alive_0) simp
qed

subsection \<open>The pool of the driver\<close>

text \<open>
  When the pool of the driver has not crashed, every worker has returned, the lines
  searched are those of \<open>searched\<close>, and the batch holds the records not yet written.
\<close>

lemma rescore_pool_finished:
  assumes "\<not> crashed (rescore_pool env params)"
  shows "search_calls (trace (rescore_pool env params))
           = searched (num_workers env) (fens_of env params)"
    and "mset (concat (writes (trace (rescore_pool env params))))
           + mset (buffer (rescore_pool env params))
           = mset (map (rescored env params)
               (filter (found env params) (searched (num_workers env) (fens_of env params))))"
proof -
  let ?st = "rescore_pool env params"
  have a: "alive (workers ?st) = 0"
    using assms unfolding rescore_pool_eq by (rule wait_for_workers_finished_alive)
  have "cursor_view ?st = searched (num_workers env) (fens_of env params)"
    by (rule rescore_pool_invariant
          [where I = "\<lambda>s. cursor_view s = searched (num_workers env) (fens_of env params)"])
       (simp only: cursor_view_worker_step, simp add: cursor_view_def)
  with a show sc: "search_calls (trace ?st) = searched (num_workers env) (fens_of env params)"
    by (simp add: cursor_view_def)
  have "accounted env params ?st"
    by (rule rescore_pool_invariant [where I = "accounted env params"])
       (simp_all add: accounted_worker_step, simp add: accounted_def records_view_def)
  then show "mset (concat (writes (trace ?st))) + mset (buffer ?st)
           = mset (map (rescored env params)
               (filter (found env params) (searched (num_workers env) (fens_of env params))))"
    using assms held_records_alive_0 [OF a] sc by (simp add: accounted_def records_view_def)
qed

lemma rescore_pool_crashed:
  "crashed (rescore_pool env params) \<Longrightarrow>
     \<not> create_new_sfen_output env (rescore_output_filename params)
     \<and> last (trace (rescore_pool env params)) = Null_sink_write"
proof -
  assume c: "crashed (rescore_pool env params)"
  have "accounted env params (rescore_pool env params)"
    by (rule rescore_pool_invariant [where I = "accounted env params"])
       (simp_all add: accounted_worker_step, simp add: accounted_def records_view_def)
  then have l: "last (trace (rescore_pool env params)) = Null_sink_write"
    using c by (simp add: accounted_def)
  have "\<not> create_new_sfen_output env (rescore_output_filename params)"
  proof
    assume out: "create_new_sfen_output env (rescore_output_filename params)"
    have "\<not> crashed (rescore_pool env params)"
      by (rule rescore_pool_invariant [where I = "\<lambda>s. \<not> crashed s"])
         (simp_all add: crashed_worker_step out)
    with c show False by simp
  qed
  with l show ?thesis by simp
qed

lemma do_rescore_fen_searches:
  assumes out: "create_new_sfen_output env (rescore_output_filename params)"
  shows "search_calls (do_rescore_fen env params) = searched (num_workers env) (fens_of env params)"
    and "mset (concat (writes (do_rescore_fen env params)))
           = mset (map (rescored env params)
               (filter (found env params) (searched (num_workers env) (fens_of env params))))"
proof -
  have nc: "\<not> crashed (rescore_pool env params)"
    using out rescore_pool_crashed by blast
  note f = rescore_pool_finished [OF nc]
  show "search_calls (do_rescore_fen env params) = searched (num_workers env) (fens_of env params)"
    using nc out f(1) by (simp add: do_rescore_fen_def Let_def flush_def)
  show "mset (concat (writes (do_rescore_fen env params)))
           = mset (map (rescored env params)
               (filter (found env params) (searched (num_workers env) (fens_of env params))))"
    using nc out f(2) by (auto simp add: do_rescore_fen_def Let_def flush_def)
qed

lemma cerr_lines_do_rescore_fen: "cerr_lines (do_rescore_fen env params) = []"
proof -
  have "cerr_lines (trace (rescore_pool env params)) = []"
    by (rule rescore_pool_invariant [where I = "\<lambda>s. cerr_lines (trace s) = []"])
       (simp_all add: cerr_lines_worker_step)
  then show ?thesis
    by (simp add: do_rescore_fen_def Let_def flush_def)
qed

lemma do_rescore_fen_unopened:
  assumes "ifstream_lines env (rescore_input_filename params) = None"
  shows "do_rescore_fen env params
           = [Open_ifstream (rescore_input_filename params),
              Create_sfen_output (rescore_output_filename params), Cout Finished]"
proof -
  let ?tr = "[Open_ifstream (rescore_input_filename params),
              Create_sfen_output (rescore_output_filename params)]"
  have "fens_of env params = []"
    using assms by (simp add: fens_of_def)
  then have "idle (rescore_pool env params) \<and> trace (rescore_pool env params) = ?tr"
    by (intro rescore_pool_invariant [where I = "\<lambda>s. idle s \<and> trace s = ?tr"]
          idle_worker_step)
       (simp_all add: idle_def)
  then show ?thesis
    by (simp add: do_rescore_fen_def idle_def)
qed

lemma do_rescore_fen_null_sink:
  assumes out: "\<not> create_new_sfen_output env (rescore_output_filename params)"
  shows "writes (do_rescore_fen env params) = []"
    and "\<exists>fen \<in> set (searched (num_workers env) (fens_of env params)). found env params fen \<Longrightarrow>
           last (do_rescore_fen env params) = Null_sink_write"
proof -
  let ?st = "rescore_pool env params"
  have w: "writes (trace ?st) = []"
    by (rule rescore_pool_invariant [where I = "\<lambda>s. writes (trace s) = []"])
       (simp_all add: writes_worker_step_no_sink out)
  then show "writes (do_rescore_fen env params) = []"
    using out by (simp add: do_rescore_fen_def Let_def)
  assume ex: "\<exists>fen \<in> set (searched (num_workers env) (fens_of env params)). found env params fen"
  show "last (do_rescore_fen env params) = Null_sink_write"
  proof (cases "crashed ?st")
    case True
    then show ?thesis
      using rescore_pool_crashed [OF True] by (simp add: do_rescore_fen_def Let_def)
  next
    case False
    have "filter (found env params) (searched (num_workers env) (fens_of env params)) \<noteq> []"
      using ex by (simp add: filter_empty_conv)
    then have "buffer ?st \<noteq> []"
      using rescore_pool_finished(2) [OF False] w by auto
    then show ?thesis
      using False out by (simp add: do_rescore_fen_def Let_def)
  qed
qed

lemma searched_few_short:
  "length (filter (\<lambda>fen. \<not> 10 \<le> length fen) fens) < k \<Longrightarrow>
     searched k fens = filter (\<lambda>fen. 10 \<le> length fen) fens"
proof (induction k fens rule: searched.induct)
  case (1 fens)
  then show ?case by simp
next
  case (2 k)
  then show ?case by simp
next
  case (3 k fen fens)
  then show ?case by (cases "10 \<le> length fen") simp_all
qed

section \<open>The searches of a run and the records it writes\<close>

text \<open>
  C3 (amended). For every text source, every number \<open>K\<close> of workers and every schedule,
  when the sink was constructed: the lines searched are, in the order in which they are
  read, the lines of at least 10 characters that come before the \<open>K\<close>-th shorter line, or
  all such lines when fewer than \<open>K\<close> lines are shorter; the number of records written is
  the number of searched lines whose search finds a move, so at most the number of
  searches. A short line ends only the worker that read it.
\<close>

theorem rescore_search_attempts:
  assumes "create_new_sfen_output env (rescore_output_filename params)"
  shows "search_calls (do_rescore_fen env params) = searched (num_workers env) (fens_of env params)
       \<and> length (concat (writes (do_rescore_fen env params)))
           = length (filter (found env params) (search_calls (do_rescore_fen env params)))
       \<and> length (concat (writes (do_rescore_fen env params)))
           \<le> length (search_calls (do_rescore_fen env params))
       \<and> (length (filter (\<lambda>fen. \<not> 10 \<le> length fen) (fens_of env params)) < num_workers env \<longrightarrow>
            search_calls (do_rescore_fen env params)
              = filter (\<lambda>fen. 10 \<le> length fen) (fens_of env params))"
proof -
  note s = do_rescore_fen_searches [OF assms]
  have "length (concat (writes (do_rescore_fen env params)))
          = length (map (rescored env params)
              (filter (found env params) (searched (num_workers env) (fens_of env params))))"
    using s(2) by (rule mset_eq_length)
  then have n: "length (concat (writes (do_rescore_fen env params)))
          = length (filter (found env params) (search_calls (do_rescore_fen env params)))"
    by (simp add: s(1))
  then have "length (concat (writes (do_rescore_fen env params)))
          \<le> length (search_calls (do_rescore_fen env params))"
    by simp
  with n s(1) show ?thesis
    by (simp add: searched_few_short)
qed

theorem rescore_search_attempts_witness:
  "create_new_sfen_output (demo_services\<lparr>num_workers := 3\<rparr>)
     (rescore_output_filename RescoreFenParams_default)
   \<and> length (filter (\<lambda>fen. \<not> 10 \<le> length fen)
        (fens_of (demo_services\<lparr>num_workers := 3\<rparr>) RescoreFenParams_default))
       < num_workers (demo_services\<lparr>num_workers := 3\<rparr>)
   \<and> search_calls (do_rescore_fen (demo_services\<lparr>num_workers := 3\<rparr>) RescoreFenParams_default)
       = [''8/8/8/8/8/8/8/K1k5 w - - 0 1'', ''8/8/8/8/8/8/8/K2k4 w - - 0 1'',
          ''stalemate-position'']
   \<and> length (concat (writes
         (do_rescore_fen (demo_services\<lparr>num_workers := 3\<rparr>) RescoreFenParams_default))) = 2"
proof -
  let ?env = "demo_services\<lparr>num_workers := 3\<rparr>"
  let ?run = "do_rescore_fen ?env RescoreFenParams_default"
  have out: "create_new_sfen_output ?env (rescore_output_filename RescoreFenParams_default)"
    by (simp add: demo_services_def RescoreFenParams_default_def)
  have fens: "fens_of ?env RescoreFenParams_default = demo_lines"
    by (simp add: fens_of_def demo_services_def RescoreFenParams_default_def)
  have k: "num_workers ?env = 3"
    by simp
  have s: "searched 3 demo_lines
             = [''8/8/8/8/8/8/8/K1k5 w - - 0 1'', ''8/8/8/8/8/8/8/K2k4 w - - 0 1'',
                ''stalemate-position'']"
    by (simp add: demo_lines_def eval_nat_numeral)
  have short: "length (filter (\<lambda>fen. \<not> 10 \<le> length fen) demo_lines) < 3"
    by (simp add: demo_lines_def)
  note t = rescore_search_attempts [OF out, unfolded fens k s]
  from t have a: "search_calls ?run
             = [''8/8/8/8/8/8/8/K1k5 w - - 0 1'', ''8/8/8/8/8/8/8/K2k4 w - - 0 1'',
                ''stalemate-position'']"
    and b: "length (concat (writes ?run))
             = length (filter (found ?env RescoreFenParams_default) (search_calls ?run))"
    by blast+
  from b have c: "length (concat (writes ?run)) = 2"
    unfolding a by (simp add: found_def demo_services_def)
  show ?thesis
    unfolding fens k using out short a c by blast
qed

text \<open>
  With two workers and the five lines of \<open>demo_lines\<close>, of which the second and the
  fourth are short, two lines are searched: neither the three lines of at least 10
  characters of the file, nor the one that precedes the first short line. With one worker
  one line is searched, not the three.
\<close>

theorem rescore_search_attempts_counterexample:
  "length (search_calls (do_rescore_fen demo_services RescoreFenParams_default)) = 2
   \<and> num_workers demo_services = 2
   \<and> length (filter (\<lambda>fen. 10 \<le> length fen)
        (fens_of demo_services RescoreFenParams_default)) = 3
   \<and> length (takeWhile (\<lambda>fen. 10 \<le> length fen)
        (fens_of demo_services RescoreFenParams_default)) = 1
   \<and> length (search_calls
        (do_rescore_fen (demo_services\<lparr>num_workers := 1\<rparr>) RescoreFenParams_default)) = 1
   \<and> length (filter (\<lambda>fen. 10 \<le> length fen)
        (fens_of (demo_services\<lparr>num_workers := 1\<rparr>) RescoreFenParams_default)) = 3"
proof -
  let ?one = "demo_services\<lparr>num_workers := 1\<rparr>"
  have out: "create_new_sfen_output demo_services (rescore_output_filename RescoreFenParams_default)"
    "create_new_sfen_output ?one (rescore_output_filename RescoreFenParams_default)"
    by (simp_all add: demo_services_def RescoreFenParams_default_def)
  have fens: "fens_of demo_services RescoreFenParams_default = demo_lines"
    "fens_of ?one RescoreFenParams_default = demo_lines"
    by (simp_all add: fens_of_def demo_services_def RescoreFenParams_default_def)
  have k: "num_workers demo_services = 2" "num_workers ?one = 1"
    by (simp_all add: demo_services_def)
  have s: "length (searched 2 demo_lines) = 2" "length (searched 1 demo_lines) = 1"
    by (simp_all add: demo_lines_def eval_nat_numeral)
  have v: "length (filter (\<lambda>fen. 10 \<le> length fen) demo_lines) = 3"
    "length (takeWhile (\<lambda>fen. 10 \<le> length fen) demo_lines) = 1"
    by (simp_all add: demo_lines_def)
  note two = do_rescore_fen_searches(1) [OF out(1), unfolded fens k]
  note one = do_rescore_fen_searches(1) [OF out(2), unfolded fens k]
  show ?thesis
    unfolding fens k two one using s v by simp
qed

text \<open>
  C7. A worker that reads a line of at least 10 characters searches it. When the search
  returns a non-empty line of moves, the worker holds a record with the value of the search
  as its score, the first move of the line as its move, ply 1, game result 0 and padding 0,
  and its next step appends exactly this record to the batch (or writes it with the batch).
  When the line of moves is empty the worker holds nothing, nothing is appended, and it is
  back at the cursor. So the records that a run writes to an existing sink are, up to their
  order, the records of the searched lines whose search finds a move.
\<close>

theorem worker_step_emits_search_result:
  assumes "\<not> crashed st" and "i < length (workers st)"
    and "workers st ! i = At_next_fen" and "fens_file st = fen # rest" and "10 \<le> length fen"
    and "search env (reset_rule50 env (set_fen env fen)) (depth params) 1
           = (search_value, search_pv)"
    and "\<not> crashed st'" and "i < length (workers st')" and "workers st' ! i = At_emplace ps"
    and "out \<or> length (buffer st') + 1 < batch_size"
    and "create_new_sfen_output env (rescore_output_filename params)"
  shows "workers (worker_step env params batch_size out i st) ! i
           = (if search_pv = [] then At_next_fen
              else At_emplace \<lparr> sfen = sfen_pack env (reset_rule50 env (set_fen env fen)),
                                score = search_value, move = search_pv ! 0, gamePly = 1,
                                game_result = 0, padding = 0 \<rparr>)
       \<and> trace (worker_step env params batch_size out i st) = trace st @ [Search_call fen]
       \<and> buffer (worker_step env params batch_size out i st) = buffer st
       \<and> fens_file (worker_step env params batch_size out i st) = rest
       \<and> concat (writes (trace (worker_step env params batch_size out i st')))
            @ buffer (worker_step env params batch_size out i st')
           = concat (writes (trace st')) @ buffer st' @ [ps]
       \<and> workers (worker_step env params batch_size out i st') ! i = At_next_fen
       \<and> found env params fen = (search_pv \<noteq> [])
       \<and> rescored env params fen
           = \<lparr> sfen = sfen_pack env (reset_rule50 env (set_fen env fen)),
               score = search_value, move = search_pv ! 0, gamePly = 1,
               game_result = 0, padding = 0 \<rparr>
       \<and> mset (concat (writes (do_rescore_fen env params)))
           = mset (map (rescored env params)
               (filter (found env params) (search_calls (do_rescore_fen env params))))"
proof -
  have cursor: "workers (worker_step env params batch_size out i st) ! i
           = (if search_pv = [] then At_next_fen
              else At_emplace \<lparr> sfen = sfen_pack env (reset_rule50 env (set_fen env fen)),
                                score = search_value, move = search_pv ! 0, gamePly = 1,
                                game_result = 0, padding = 0 \<rparr>)"
    "trace (worker_step env params batch_size out i st) = trace st @ [Search_call fen]"
    "buffer (worker_step env params batch_size out i st) = buffer st"
    "fens_file (worker_step env params batch_size out i st) = rest"
    using assms(1-6) by (simp_all add: worker_step_def next_fen_def Let_def)
  have emplace: "concat (writes (trace (worker_step env params batch_size out i st')))
            @ buffer (worker_step env params batch_size out i st')
           = concat (writes (trace st')) @ buffer st' @ [ps]"
    "workers (worker_step env params batch_size out i st') ! i = At_next_fen"
    using assms(7-10) by (auto simp add: worker_step_def Let_def flush_def)
  have built: "found env params fen = (search_pv \<noteq> [])"
    "rescored env params fen
           = \<lparr> sfen = sfen_pack env (reset_rule50 env (set_fen env fen)),
               score = search_value, move = search_pv ! 0, gamePly = 1,
               game_result = 0, padding = 0 \<rparr>"
    using assms(6) by (simp_all add: found_def rescored_def)
  have run: "mset (concat (writes (do_rescore_fen env params)))
           = mset (map (rescored env params)
               (filter (found env params) (search_calls (do_rescore_fen env params))))"
    using do_rescore_fen_searches [OF assms(11)] by simp
  show ?thesis
    using cursor emplace built run by blast
qed

theorem worker_step_emits_search_result_witness:
  "\<not> crashed (demo_pool [At_next_fen, At_next_fen] demo_lines)
   \<and> 0 < length (workers (demo_pool [At_next_fen, At_next_fen] demo_lines))
   \<and> workers (demo_pool [At_next_fen, At_next_fen] demo_lines) ! 0 = At_next_fen
   \<and> fens_file (demo_pool [At_next_fen, At_next_fen] demo_lines)
       = ''8/8/8/8/8/8/8/K1k5 w - - 0 1'' # tl demo_lines
   \<and> 10 \<le> length ''8/8/8/8/8/8/8/K1k5 w - - 0 1''
   \<and> search demo_services
        (reset_rule50 demo_services (set_fen demo_services ''8/8/8/8/8/8/8/K1k5 w - - 0 1''))
        (depth RescoreFenParams_default) 1 = (28, [''a1a2''])
   \<and> \<not> crashed (demo_pool [At_emplace demo_rescored, At_next_fen] [])
   \<and> 0 < length (workers (demo_pool [At_emplace demo_rescored, At_next_fen] []))
   \<and> workers (demo_pool [At_emplace demo_rescored, At_next_fen] []) ! 0 = At_emplace demo_rescored
   \<and> create_new_sfen_output demo_services (rescore_output_filename RescoreFenParams_default)
   \<and> workers (worker_step demo_services RescoreFenParams_default 10000 True 0
        (demo_pool [At_next_fen, At_next_fen] demo_lines)) ! 0 = At_emplace demo_rescored
   \<and> buffer (worker_step demo_services RescoreFenParams_default 10000 True 0
        (demo_pool [At_emplace demo_rescored, At_next_fen] [])) = [demo_rescored]
   \<and> mset (concat (writes (do_rescore_fen demo_services RescoreFenParams_default)))
       = {# demo_rescored,
            demo_rescored\<lparr> sfen := ''8/8/8/8/8/8/8/K2k4 w - - 0 1'' \<rparr> #}"
proof -
  let ?st = "demo_pool [At_next_fen, At_next_fen] demo_lines"
  let ?st' = "demo_pool [At_emplace demo_rescored, At_next_fen] []"
  let ?fen = "''8/8/8/8/8/8/8/K1k5 w - - 0 1''"
  let ?run = "do_rescore_fen demo_services RescoreFenParams_default"
  have h: "\<not> crashed ?st" "0 < length (workers ?st)" "workers ?st ! 0 = At_next_fen"
    "fens_file ?st = ?fen # tl demo_lines" "10 \<le> length ?fen"
    "search demo_services (reset_rule50 demo_services (set_fen demo_services ?fen))
        (depth RescoreFenParams_default) 1 = (28, [''a1a2''])"
    "\<not> crashed ?st'" "0 < length (workers ?st')" "workers ?st' ! 0 = At_emplace demo_rescored"
    "True \<or> length (buffer ?st') + 1 < 10000"
    "create_new_sfen_output demo_services (rescore_output_filename RescoreFenParams_default)"
    by (simp_all add: demo_pool_def demo_lines_def demo_services_def RescoreFenParams_default_def)
  note t = worker_step_emits_search_result [OF h]
  have w: "writes (trace (worker_step demo_services RescoreFenParams_default 10000 True 0 ?st')) = []"
    by (simp add: worker_step_def demo_pool_def Let_def)
  have fens: "fens_of demo_services RescoreFenParams_default = demo_lines"
    by (simp add: fens_of_def demo_services_def RescoreFenParams_default_def)
  have k: "num_workers demo_services = 2"
    by (simp add: demo_services_def)
  have "searched 2 demo_lines = [?fen, ''8/8/8/8/8/8/8/K2k4 w - - 0 1'']"
    by (simp add: demo_lines_def eval_nat_numeral)
  then have calls: "search_calls ?run = [?fen, ''8/8/8/8/8/8/8/K2k4 w - - 0 1'']"
    using do_rescore_fen_searches(1) [OF h(11)] by (simp add: fens k)
  from t have 1: "workers (worker_step demo_services RescoreFenParams_default 10000 True 0 ?st) ! 0
                 = At_emplace demo_rescored"
    by (simp add: demo_rescored_def demo_services_def)
  from t w have 2: "buffer (worker_step demo_services RescoreFenParams_default 10000 True 0 ?st')
                 = [demo_rescored]"
    by (simp add: demo_pool_def)
  from t have "mset (concat (writes ?run))
      = mset (map (rescored demo_services RescoreFenParams_default)
          (filter (found demo_services RescoreFenParams_default) (search_calls ?run)))"
    by blast
  then have 3: "mset (concat (writes ?run))
      = {# demo_rescored, demo_rescored\<lparr> sfen := ''8/8/8/8/8/8/8/K2k4 w - - 0 1'' \<rparr> #}"
    unfolding calls
    by (simp add: found_def rescored_def demo_services_def demo_rescored_def
        RescoreFenParams_default_def)
  show ?thesis
    using h(1-9,11) 1 2 3 by blast
qed

section \<open>Source and sink that do not exist\<close>

lemma do_nudged_static_fatal_at_start:
  "open_sfen_input_file env (input_filename params) = None \<Longrightarrow>
     do_nudged_static env params
       = [Open_sfen_input (input_filename params), Create_sfen_output (output_filename params),
          Cerr Invalid_input_file_type]"
  "open_sfen_input_file env (input_filename params) = Some records \<Longrightarrow>
   \<not> create_new_sfen_output env (output_filename params) \<Longrightarrow>
     do_nudged_static env params
       = [Open_sfen_input (input_filename params), Create_sfen_output (output_filename params),
          Cerr Invalid_output_file_type]"
  by (simp_all add: do_nudged_static_def)

text \<open>
  C2. The static driver stops with a line on the error channel when its source or its sink
  does not exist (\<open>do_nudged_static_fatal_at_start\<close>). The rescoring driver does not. It
  never prints on the error channel. When its text source cannot be opened it starts the
  pool, every worker returns at once, and it prints the completion message. When its sink
  does not exist it searches the lines all the same, and as soon as a search has found a
  move the run ends in a write through the null sink.
\<close>

theorem do_rescore_fen_no_diagnostic:
  "cerr_lines (do_rescore_fen env params) = []
   \<and> (ifstream_lines env (rescore_input_filename params) = None \<longrightarrow>
        do_rescore_fen env params
          = [Open_ifstream (rescore_input_filename params),
             Create_sfen_output (rescore_output_filename params), Cout Finished])
   \<and> (\<not> create_new_sfen_output env (rescore_output_filename params)
        \<and> (\<exists>fen \<in> set (searched (num_workers env) (fens_of env params)). found env params fen)
        \<longrightarrow> last (do_rescore_fen env params) = Null_sink_write
            \<and> writes (do_rescore_fen env params) = [])"
  by (simp add: cerr_lines_do_rescore_fen do_rescore_fen_unopened do_rescore_fen_null_sink)

theorem do_rescore_fen_no_diagnostic_witness:
  "ifstream_lines demo_services
     (rescore_input_filename (RescoreFenParams_default\<lparr> rescore_input_filename := ''missing.epd'' \<rparr>))
     = None
   \<and> do_rescore_fen demo_services
        (RescoreFenParams_default\<lparr> rescore_input_filename := ''missing.epd'' \<rparr>)
       = [Open_ifstream ''missing.epd'', Create_sfen_output ''out.binpack'', Cout Finished]
   \<and> \<not> create_new_sfen_output demo_services
        (rescore_output_filename (RescoreFenParams_default\<lparr> rescore_output_filename := ''/'' \<rparr>))
   \<and> found demo_services (RescoreFenParams_default\<lparr> rescore_output_filename := ''/'' \<rparr>)
        ''8/8/8/8/8/8/8/K1k5 w - - 0 1''
   \<and> last (do_rescore_fen demo_services
        (RescoreFenParams_default\<lparr> rescore_output_filename := ''/'' \<rparr>)) = Null_sink_write"
proof -
  let ?p = "RescoreFenParams_default\<lparr> rescore_input_filename := ''missing.epd'' \<rparr>"
  let ?q = "RescoreFenParams_default\<lparr> rescore_output_filename := ''/'' \<rparr>"
  let ?fen = "''8/8/8/8/8/8/8/K1k5 w - - 0 1''"
  have a: "ifstream_lines demo_services (rescore_input_filename ?p) = None"
    by (simp add: demo_services_def)
  have b: "\<not> create_new_sfen_output demo_services (rescore_output_filename ?q)"
    by (simp add: demo_services_def)
  have c: "found demo_services ?q ?fen"
    by (simp add: found_def demo_services_def)
  have "fens_of demo_services ?q = demo_lines" "num_workers demo_services = 2"
    by (simp_all add: fens_of_def demo_services_def RescoreFenParams_default_def)
  moreover have "?fen \<in> set (searched 2 demo_lines)"
    by (simp add: demo_lines_def eval_nat_numeral)
  ultimately have d: "\<exists>fen \<in> set (searched (num_workers demo_services) (fens_of demo_services ?q)).
      found demo_services ?q fen"
    using c by auto
  have 1: "do_rescore_fen demo_services ?p
       = [Open_ifstream ''missing.epd'', Create_sfen_output ''out.binpack'', Cout Finished]"
    using do_rescore_fen_no_diagnostic [of demo_services ?p] a
    by (simp add: RescoreFenParams_default_def)
  have 2: "last (do_rescore_fen demo_services ?q) = Null_sink_write"
    using do_rescore_fen_no_diagnostic [of demo_services ?q] b d by blast
  show ?thesis
    using a b c 1 2 by blast
qed

end
